theory Spec2Isabelle
  imports Complex_Main "HOL-Library.Multiset" "HOL-Library.Sublist" "HOL-Library.Char_ord"
    "HOL-Library.List_Lexorder"
begin

section \<open>The post-indexing pipeline of the blog\<close>

text \<open>
  The repository is a VitePress blog. Its own logic is three small functions:
  \<^item> \<open>postsAction\<close> (\<open>.vitepress/data/action/posts-action.ts\<close>) builds the Post
    collection from the Markdown files, through two helpers of \<open>../service\<close>;
  \<^item> \<open>getNewPosts\<close> sorts the injected global \<open>__POSTS__\<close> by date and slices it;
  \<^item> \<open>paths\<close> (\<open>tags/[tag].paths.ts\<close>) plans one route per tag.
  The helpers \<open>getAllMarkdownFiles\<close> and \<open>parseFileToPost\<close>, the action
  \<open>tagsAction\<close>, the type \<open>Post\<close> and the numbered-listing planner are not among the
  sources; where a statement needs them they are parameters, or models written from the
  specification and marked as such.
\<close>

subsection \<open>Data model\<close>

type_synonym path = string

text \<open>A navigation hint: explicitly disabled (\<open>false\<close>) or a \<open>{text, link}\<close> pair.\<close>

datatype nav = Disabled | Link (text_of: string) (link: string)

text \<open>
  The type \<open>Post\<close> of \<open>.vitepress/types\<close>, with the fields the data model of the
  specification lists. The date is kept as the string the page layer hands to
  \<open>new Date(...)\<close>.
\<close>

record post =
  path :: path
  date :: string
  title :: string
  description :: string
  tags :: "string list"
  prev_nav :: "nav option"
  next_nav :: "nav option"

subsection \<open>Thrown values\<close>

text \<open>
  A JavaScript \<open>Error\<close> object: its \<open>name\<close>, its \<open>message\<close> and its optional
  \<open>cause\<close>. \<open>new Error(msg)\<close> has the name \<open>Error\<close>, the message \<open>msg\<close> and no
  cause.
\<close>

record 'e js_error =
  err_name :: string
  err_message :: string
  err_cause :: "'e option"

definition new_Error :: "string \<Rightarrow> 'e js_error" where
  "new_Error msg = \<lparr>err_name = ''Error'', err_message = msg, err_cause = None\<rparr>"

subsection \<open>postsAction\<close>

text \<open>
  \<open>Array.prototype.map\<close> with a callback that may throw: the elements are visited in
  index order and the first throw leaves the loop; nothing of the partial result
  survives.
\<close>

fun map_throw :: "('a \<Rightarrow> 'e + 'b) \<Rightarrow> 'a list \<Rightarrow> 'e + 'b list" where
  "map_throw f [] = Inr []"
| "map_throw f (x # xs) =
     (case f x of
        Inl e \<Rightarrow> Inl e
      | Inr y \<Rightarrow> (case map_throw f xs of Inl e \<Rightarrow> Inl e | Inr ys \<Rightarrow> Inr (y # ys)))"

text \<open>
  \<^verbatim>\<open>
  export function postsAction(): Post[] {
    try {
      return getAllMarkdownFiles().map((filePath) => parseFileToPost(filePath))
    } catch (e) {
      console.error(e)
      throw new Error('Failed to retrieve article')
    }
  }
  \<close>
  The two helpers are parameters: \<open>getAllMarkdownFiles\<close> is the outcome of the
  directory walk (the list of file paths, or the value it threw) and
  \<open>parseFileToPost\<close> maps a path to a Post or to the value it threw. The console is
  the state: the list of values written by \<open>console.error\<close>, oldest first.
\<close>

definition postsAction ::
  "('e + path list) \<Rightarrow> (path \<Rightarrow> 'e + post) \<Rightarrow> 'e list \<Rightarrow> ('e js_error + post list) \<times> 'e list"
where
  "postsAction getAllMarkdownFiles parseFileToPost console =
     (case (case getAllMarkdownFiles of
              Inl e \<Rightarrow> Inl e
            | Inr files \<Rightarrow> map_throw parseFileToPost files) of
        Inr posts \<Rightarrow> (Inr posts, console)
      | Inl e \<Rightarrow> (Inl (new_Error ''Failed to retrieve article''), console @ [e]))"

subsection \<open>getNewPosts\<close>

text \<open>
  \<open>Array.prototype.slice(start, end)\<close> on integer arguments: a negative index counts
  from the end, and both indices are clamped to the array.
\<close>

definition slice :: "int \<Rightarrow> int \<Rightarrow> 'a list \<Rightarrow> 'a list" where
  "slice start end xs =
     (let len = int (length xs);
          k = (if start < 0 then max (len + start) 0 else min start len);
          final = (if end < 0 then max (len + end) 0 else min end len)
      in take (nat (final - k)) (drop (nat k) xs))"

text \<open>
  The comparator \<open>(a, b) => new Date(b.date).getTime() - new Date(a.date).getTime()\<close>.
  \<open>getTime\<close> stands for \<open>new Date(s).getTime()\<close>: the time stamp in milliseconds, or
  \<open>None\<close> for the \<open>NaN\<close> of a string that is no date. A difference with a \<open>NaN\<close>
  operand is \<open>NaN\<close>.
\<close>

definition compareFn :: "(string \<Rightarrow> int option) \<Rightarrow> post \<Rightarrow> post \<Rightarrow> int option" where
  "compareFn getTime a b =
     (case getTime (date b) of
        None \<Rightarrow> None
      | Some tb \<Rightarrow> (case getTime (date a) of None \<Rightarrow> None | Some ta \<Rightarrow> Some (tb - ta)))"

text \<open>
  \<open>Array.prototype.sort\<close> with a comparator. The language reads a \<open>NaN\<close> result as
  \<open>+0\<close>, places \<open>x\<close> before \<open>y\<close> when the comparator is negative, and is stable. For a
  consistent comparator that fixes the result; it is computed here by insertion.
\<close>

definition SortCompare :: "('a \<Rightarrow> 'a \<Rightarrow> int option) \<Rightarrow> 'a \<Rightarrow> 'a \<Rightarrow> int" where
  "SortCompare comparefn x y = (case comparefn x y of None \<Rightarrow> 0 | Some v \<Rightarrow> v)"

fun insert_by :: "('a \<Rightarrow> 'a \<Rightarrow> int option) \<Rightarrow> 'a \<Rightarrow> 'a list \<Rightarrow> 'a list" where
  "insert_by comparefn x [] = [x]"
| "insert_by comparefn x (y # ys) =
     (if SortCompare comparefn x y \<le> 0 then x # y # ys
      else y # insert_by comparefn x ys)"

fun array_sort :: "('a \<Rightarrow> 'a \<Rightarrow> int option) \<Rightarrow> 'a list \<Rightarrow> 'a list" where
  "array_sort comparefn [] = []"
| "array_sort comparefn (x # xs) = insert_by comparefn x (array_sort comparefn xs)"

text \<open>
  \<^verbatim>\<open>
  declare const __POSTS__: Post[]

  export const getNewPosts = (num: number) => {
    const posts = __POSTS__
    posts.sort((a, b) => new Date(b.date).getTime() - new Date(a.date).getTime())
    return posts.slice(0, num)
  }
  \<close>
  \<open>posts\<close> is the array \<open>__POSTS__\<close> itself, and \<open>sort\<close> sorts it in place: the
  function takes the global array and returns the slice together with the array as it
  is left. \<open>num\<close> is an integer here.
\<close>

definition getNewPosts ::
  "(string \<Rightarrow> int option) \<Rightarrow> int \<Rightarrow> post list \<Rightarrow> post list \<times> post list" where
  "getNewPosts getTime num POSTS =
     (let posts = array_sort (compareFn getTime) POSTS
      in (slice 0 num posts, posts))"

subsection \<open>The tag-page planner\<close>

text \<open>
  \<^verbatim>\<open>
  paths() {
    return tags.map((tag) => ({
      params: { tag },
    }))
  }
  \<close>
  An entry is an object with the one property \<open>params\<close>, itself an object: a list of
  keys and values.
\<close>

record path_entry =
  params :: "(string \<times> string) list"

definition paths :: "string list \<Rightarrow> path_entry list" where
  "paths tags_global = map (\<lambda>tag. \<lparr>params = [(''tag'', tag)]\<rparr>) tags_global"

subsection \<open>The parts that are not among the sources\<close>

text \<open>The file-level errors of the error taxonomy; each carries the path of its file.\<close>

datatype file_error =
    MalformedFrontMatter path
  | MissingRequiredField (field: string) path
  | InvalidDateFormat path

text \<open>The parsed metadata of one file: every recognised key may be absent.\<close>

record front_matter =
  fm_date :: "string option"
  fm_title :: "string option"
  fm_description :: "string option"
  fm_tags :: "string list option"
  fm_prev :: "nav option"
  fm_next :: "nav option"

definition is_whitespace :: "char \<Rightarrow> bool" where
  "is_whitespace c \<longleftrightarrow>
     c = CHR '' '' \<or> c = CHR 0x09 \<or> c = CHR 0x0A \<or> c = CHR 0x0B \<or> c = CHR 0x0C \<or> c = CHR 0x0D"

definition trim :: "string \<Rightarrow> string" where
  "trim s = rev (dropWhile is_whitespace (rev (dropWhile is_whitespace s)))"

text \<open>
  Modelled from the spec: the Post Model Builder (\<open>parseFileToPost\<close> after parsing, in
  \<open>../service\<close>, which is not among the sources). The required fields \<open>date\<close> and
  \<open>title\<close> are checked first, each missing one failing with
  \<open>MissingRequiredField\<close> naming the field and the file; a date that does not parse
  fails with \<open>InvalidDateFormat\<close>; the description defaults to the empty string; the
  tags default to the empty collection, each tag is trimmed and duplicates after the
  trim collapse to one; \<open>prev\<close> and \<open>next\<close> pass through. \<open>getTime\<close> is the date
  parser of the comparator above.
\<close>

definition buildPost ::
  "(string \<Rightarrow> int option) \<Rightarrow> front_matter \<Rightarrow> path \<Rightarrow> file_error + post" where
  "buildPost getTime fm file =
     (case fm_date fm of
        None \<Rightarrow> Inl (MissingRequiredField ''date'' file)
      | Some d \<Rightarrow>
          (case fm_title fm of
             None \<Rightarrow> Inl (MissingRequiredField ''title'' file)
           | Some t \<Rightarrow>
               if getTime d = None then Inl (InvalidDateFormat file)
               else Inr \<lparr>path = file, date = d, title = t,
                 description = (case fm_description fm of None \<Rightarrow> [] | Some x \<Rightarrow> x),
                 tags = (case fm_tags fm of None \<Rightarrow> [] | Some ts \<Rightarrow> remdups (map trim ts)),
                 prev_nav = fm_prev fm, next_nav = fm_next fm\<rparr>))"

text \<open>
  Modelled from the spec: the Tag Extractor (\<open>tagsAction\<close> of
  \<open>.vitepress/data/action/tags-action\<close>, which is not among the sources): the sorted,
  duplicate-free set of all tags used by any post of the collection. Strings are ordered
  lexicographically by character code.
\<close>

definition tagsAction :: "post list \<Rightarrow> string list" where
  "tagsAction posts = sort (remdups (concat (map tags posts)))"

text \<open>
  Modelled from the spec: the pagination plan (the path loader of the numbered listing
  pages, which is not among the sources): the page numbers from 1 to the number of pages
  that \<open>postCount\<close> posts fill at \<open>pageSize\<close> posts a page, and page 1 alone for no posts.
  The number of pages is computed in integer arithmetic.
\<close>

definition page_count :: "nat \<Rightarrow> nat \<Rightarrow> nat" where
  "page_count postCount pageSize = max 1 ((postCount + pageSize - 1) div pageSize)"

definition pagination_plan :: "nat \<Rightarrow> nat \<Rightarrow> nat list" where
  "pagination_plan postCount pageSize = [1 ..< Suc (page_count postCount pageSize)]"

text \<open>
  The failure the specification describes for a build, in its own words: a
  \<open>CollectionBuildError\<close> that wraps the file-level error \<open>e\<close> and includes the path
  \<open>file\<close> of the offending file.
\<close>

definition spec_CollectionBuildError :: "'e \<Rightarrow> path \<Rightarrow> 'e js_error \<Rightarrow> bool" where
  "spec_CollectionBuildError e file err \<longleftrightarrow>
     err_name err = ''CollectionBuildError'' \<and> err_cause err = Some e \<and>
     sublist file (err_message err)"

subsection \<open>A small content tree\<close>

text \<open>
  The two posts of the end-to-end example of the specification, a third path whose file
  has no date, and the time stamps of the two dates (milliseconds since the epoch, UTC).
\<close>

definition post_07 :: post where
  "post_07 = \<lparr>path = ''posts/2025/07/07.md'', date = ''2025-07-07'', title = ''A'',
     description = [], tags = [''ts''], prev_nav = None, next_nav = None\<rparr>"

definition post_08 :: post where
  "post_08 = \<lparr>path = ''posts/2025/07/08.md'', date = ''2025-07-08'', title = ''B'',
     description = [], tags = [''ts'', ''generics''], prev_nav = None, next_nav = None\<rparr>"

definition example_parseFileToPost :: "path \<Rightarrow> file_error + post" where
  "example_parseFileToPost file =
     (if file = ''posts/2025/07/07.md'' then Inr post_07
      else if file = ''posts/2025/07/08.md'' then Inr post_08
      else Inl (MissingRequiredField ''date'' file))"

definition example_getTime :: "string \<Rightarrow> int option" where
  "example_getTime s =
     (if s = ''2025-07-07'' then Some 1751846400000
      else if s = ''2025-07-08'' then Some 1751932800000
      else None)"

definition example_front_matter :: front_matter where
  "example_front_matter = \<lparr>fm_date = Some ''2025-07-07'', fm_title = Some ''A'',
     fm_description = None, fm_tags = Some [''ts'', '' ts ''], fm_prev = Some Disabled,
     fm_next = None\<rparr>"

definition post_go_rust :: post where
  "post_go_rust = post_07\<lparr>tags := [''go'', ''rust'']\<rparr>"

definition post_rust :: post where
  "post_rust = post_08\<lparr>tags := [''rust'']\<rparr>"

section \<open>Properties\<close>

subsection \<open>The collection build\<close>

lemma map_throw_all_ok:
  "\<forall>x\<in>set xs. \<not> isl (f x) \<Longrightarrow> map_throw f xs = Inr (map (\<lambda>x. projr (f x)) xs)"
proof (induction xs)
  case Nil
  show ?case by simp
next
  case (Cons x xs)
  from Cons.prems obtain y where y: "f x = Inr y"
    by (cases "f x") auto
  from Cons show ?case by (simp add: y)
qed

lemma map_throw_first_error:
  "\<exists>x\<in>set xs. isl (f x) \<Longrightarrow>
     \<exists>pre x rest e. xs = pre @ x # rest \<and> (\<forall>y\<in>set pre. \<not> isl (f y)) \<and> f x = Inl e \<and>
       map_throw f xs = Inl e"
proof (induction xs)
  case Nil
  then show ?case by simp
next
  case (Cons a as)
  show ?case
  proof (cases "f a")
    case (Inl e)
    have "a # as = [] @ a # as \<and> (\<forall>y\<in>set []. \<not> isl (f y)) \<and> f a = Inl e \<and>
        map_throw f (a # as) = Inl e"
      by (simp add: Inl)
    then show ?thesis by blast
  next
    case (Inr b)
    with Cons.prems have "\<exists>x\<in>set as. isl (f x)" by auto
    from Cons.IH [OF this] obtain pre x rest e where
      h: "as = pre @ x # rest" "\<forall>y\<in>set pre. \<not> isl (f y)" "f x = Inl e" "map_throw f as = Inl e"
      by blast
    have "a # as = (a # pre) @ x # rest \<and> (\<forall>y\<in>set (a # pre). \<not> isl (f y)) \<and> f x = Inl e \<and>
        map_throw f (a # as) = Inl e"
      using h by (simp add: Inr)
    then show ?thesis by blast
  qed
qed

text \<open>
  Claim C1, as the code has it. When at least one file of the tree fails to parse or to
  build, \<open>postsAction\<close> fails and returns no Post collection, partial or other. The
  files before the first failing one have all been built; the value that one threw goes
  to the console; and the value thrown to the caller is a plain \<open>Error\<close> with the fixed
  message \<open>Failed to retrieve article\<close> and no cause: it neither wraps the file-level
  error nor names the file.
\<close>

theorem postsAction_fails_fast:
  assumes "\<exists>file\<in>set files. isl (parseFileToPost file)"
  shows "\<exists>pre file rest e. files = pre @ file # rest \<and>
           (\<forall>g\<in>set pre. \<not> isl (parseFileToPost g)) \<and> parseFileToPost file = Inl e \<and>
           postsAction (Inr files) parseFileToPost console =
             (Inl \<lparr>err_name = ''Error'', err_message = ''Failed to retrieve article'',
                    err_cause = None\<rparr>,
              console @ [e])"
proof -
  from map_throw_first_error [OF assms] obtain pre bad rest e where
    h: "files = pre @ bad # rest" "\<forall>g\<in>set pre. \<not> isl (parseFileToPost g)"
       "parseFileToPost bad = Inl e" "map_throw parseFileToPost files = Inl e"
    by blast
  have "postsAction (Inr files) parseFileToPost console =
      (Inl \<lparr>err_name = ''Error'', err_message = ''Failed to retrieve article'',
             err_cause = None\<rparr>, console @ [e])"
    by (simp add: postsAction_def new_Error_def h(4))
  with h(1-3) show ?thesis by blast
qed

text \<open>The tree of the two example posts and a file without a date.\<close>

lemma example_bad_fails: "isl (example_parseFileToPost ''posts/bad.md'')"
  by (simp add: example_parseFileToPost_def)

theorem postsAction_fails_fast_witness:
  "(\<exists>file\<in>set [''posts/2025/07/07.md'', ''posts/bad.md'']. isl (example_parseFileToPost file)) \<and>
   postsAction (Inr [''posts/2025/07/07.md'', ''posts/bad.md'']) example_parseFileToPost [] =
     (Inl \<lparr>err_name = ''Error'', err_message = ''Failed to retrieve article'',
            err_cause = None\<rparr>,
      [MissingRequiredField ''date'' ''posts/bad.md''])"
proof -
  have h: "\<exists>file\<in>set [''posts/2025/07/07.md'', ''posts/bad.md'']. isl (example_parseFileToPost file)"
    using example_bad_fails by simp
  from postsAction_fails_fast [OF h, of "[]"]
  obtain pre bad rest e where
    r: "postsAction (Inr [''posts/2025/07/07.md'', ''posts/bad.md'']) example_parseFileToPost [] =
         (Inl \<lparr>err_name = ''Error'', err_message = ''Failed to retrieve article'',
            err_cause = None\<rparr>, [] @ [e])"
    by blast
  have "postsAction (Inr [''posts/2025/07/07.md'', ''posts/bad.md'']) example_parseFileToPost [] =
     (Inl (new_Error ''Failed to retrieve article''), [MissingRequiredField ''date'' ''posts/bad.md''])"
    by (simp add: postsAction_def example_parseFileToPost_def)
  with r h show ?thesis by (simp add: new_Error_def)
qed

text \<open>
  Claim C1 as written fails on that tree: the error of the build is not a
  \<open>CollectionBuildError\<close>, has no cause and does not contain the path.
\<close>

theorem postsAction_error_counterexample:
  "fst (postsAction (Inr [''posts/2025/07/07.md'', ''posts/bad.md'']) example_parseFileToPost []) =
     Inl \<lparr>err_name = ''Error'', err_message = ''Failed to retrieve article'', err_cause = None\<rparr> \<and>
   \<not> spec_CollectionBuildError (MissingRequiredField ''date'' ''posts/bad.md'') ''posts/bad.md''
       \<lparr>err_name = ''Error'', err_message = ''Failed to retrieve article'', err_cause = None\<rparr>"
  by (simp add: postsAction_def example_parseFileToPost_def new_Error_def spec_CollectionBuildError_def)

text \<open>
  Claim C9. Two builds of the same tree agree: whatever the order in which the walk
  lists the files of the tree and whatever the console held, both builds fail with the
  same error or both succeed with collections that are equal as sets; and a second
  build, run in the state the first one left, returns what the first returned.
\<close>

theorem postsAction_idempotent:
  assumes "set files1 = set files2"
  shows "map_sum id set (fst (postsAction (Inr files1) parseFileToPost console1)) =
         map_sum id set (fst (postsAction (Inr files2) parseFileToPost console2)) \<and>
         fst (postsAction (Inr files1) parseFileToPost
               (snd (postsAction (Inr files1) parseFileToPost console1))) =
         fst (postsAction (Inr files1) parseFileToPost console1)"
proof (cases "\<exists>x\<in>set files1. isl (parseFileToPost x)")
  case True
  then have t2: "\<exists>x\<in>set files2. isl (parseFileToPost x)" using assms by simp
  from map_throw_first_error [OF True] obtain e1 where
    e1: "map_throw parseFileToPost files1 = Inl e1" by blast
  from map_throw_first_error [OF t2] obtain e2 where
    e2: "map_throw parseFileToPost files2 = Inl e2" by blast
  show ?thesis by (simp add: postsAction_def e1 e2)
next
  case False
  then have a1: "\<forall>x\<in>set files1. \<not> isl (parseFileToPost x)" by simp
  then have a2: "\<forall>x\<in>set files2. \<not> isl (parseFileToPost x)" using assms by simp
  show ?thesis
    by (simp add: postsAction_def map_throw_all_ok [OF a1] map_throw_all_ok [OF a2] assms)
qed

text \<open>The two example posts, listed in either order.\<close>

theorem postsAction_idempotent_witness:
  "set [''posts/2025/07/07.md'', ''posts/2025/07/08.md''] =
     set [''posts/2025/07/08.md'', ''posts/2025/07/07.md''] \<and>
   fst (postsAction (Inr [''posts/2025/07/07.md'', ''posts/2025/07/08.md'']) example_parseFileToPost []) =
     Inr [post_07, post_08] \<and>
   fst (postsAction (Inr [''posts/2025/07/08.md'', ''posts/2025/07/07.md'']) example_parseFileToPost []) =
     Inr [post_08, post_07] \<and>
   set [post_07, post_08] = set [post_08, post_07]"
proof -
  have h: "set [''posts/2025/07/07.md'', ''posts/2025/07/08.md''] =
     set [''posts/2025/07/08.md'', ''posts/2025/07/07.md'']" by auto
  have r1: "fst (postsAction (Inr [''posts/2025/07/07.md'', ''posts/2025/07/08.md'']) example_parseFileToPost []) =
     Inr [post_07, post_08]"
    by (simp add: postsAction_def example_parseFileToPost_def)
  have r2: "fst (postsAction (Inr [''posts/2025/07/08.md'', ''posts/2025/07/07.md'']) example_parseFileToPost []) =
     Inr [post_08, post_07]"
    by (simp add: postsAction_def example_parseFileToPost_def)
  from postsAction_idempotent [OF h, of example_parseFileToPost "[]" "[]"] r1 r2
  have "set [post_07, post_08] = set [post_08, post_07]" by simp
  with h r1 r2 show ?thesis by blast
qed

subsection \<open>The newest posts\<close>

text \<open>
  The sort keeps the posts it is given. When every date parses, the comparator is the
  order of the negated time stamps, and the sort is the stable insertion sort of the
  library on that key.
\<close>

lemma mset_insert_by: "mset (insert_by c x xs) = add_mset x (mset xs)"
  by (induction xs) simp_all

lemma mset_array_sort: "mset (array_sort c xs) = mset xs"
  by (induction xs) (simp_all add: mset_insert_by)

lemma set_array_sort: "set (array_sort c xs) = set xs"
  using mset_array_sort [of c xs] by (metis set_mset_mset)

lemma SortCompare_valid:
  "getTime (date a) \<noteq> None \<Longrightarrow> getTime (date b) \<noteq> None \<Longrightarrow>
     SortCompare (compareFn getTime) a b \<le> 0 \<longleftrightarrow>
       - the (getTime (date a)) \<le> - the (getTime (date b))"
  by (auto simp: SortCompare_def compareFn_def)

lemma insert_by_insort_key:
  "getTime (date x) \<noteq> None \<Longrightarrow> \<forall>p\<in>set xs. getTime (date p) \<noteq> None \<Longrightarrow>
     insert_by (compareFn getTime) x xs = insort_key (\<lambda>p. - the (getTime (date p))) x xs"
  by (induction xs) (simp_all add: SortCompare_valid)

lemma array_sort_sort_key:
  "\<forall>p\<in>set xs. getTime (date p) \<noteq> None \<Longrightarrow>
     array_sort (compareFn getTime) xs = sort_key (\<lambda>p. - the (getTime (date p))) xs"
proof (induction xs)
  case Nil
  show ?case by simp
next
  case (Cons x xs)
  then have "array_sort (compareFn getTime) xs = sort_key (\<lambda>p. - the (getTime (date p))) xs"
    by simp
  moreover have "insert_by (compareFn getTime) x (sort_key (\<lambda>p. - the (getTime (date p))) xs) =
      insort_key (\<lambda>p. - the (getTime (date p))) x (sort_key (\<lambda>p. - the (getTime (date p))) xs)"
    using Cons.prems by (intro insert_by_insort_key) simp_all
  ultimately show ?case by simp
qed

lemma sorted_desc_array_sort:
  assumes "\<forall>p\<in>set xs. getTime (date p) \<noteq> None"
  shows "sorted_wrt (\<lambda>a b. the (getTime (date b)) \<le> the (getTime (date a)))
           (array_sort (compareFn getTime) xs)"
proof -
  have "sorted (map (\<lambda>p. - the (getTime (date p))) (sort_key (\<lambda>p. - the (getTime (date p))) xs))"
    by (rule sorted_sort_key)
  then show ?thesis
    by (simp add: array_sort_sort_key [OF assms] sorted_map)
qed

lemma stable_array_sort:
  assumes "\<forall>p\<in>set xs. getTime (date p) \<noteq> None"
  shows "filter (\<lambda>p. getTime (date p) = Some t) (array_sort (compareFn getTime) xs) =
         filter (\<lambda>p. getTime (date p) = Some t) xs"
proof -
  have eq: "\<And>ys. \<forall>p\<in>set ys. getTime (date p) \<noteq> None \<Longrightarrow>
      filter (\<lambda>p. getTime (date p) = Some t) ys = filter (\<lambda>p. - the (getTime (date p)) = - t) ys"
    by (rule filter_cong) auto
  have "filter (\<lambda>p. - the (getTime (date p)) = - t) (sort_key (\<lambda>p. - the (getTime (date p))) xs) =
      filter (\<lambda>p. - the (getTime (date p)) = - t) xs"
    by (rule sort_key_stable)
  moreover have "\<forall>p\<in>set (array_sort (compareFn getTime) xs). getTime (date p) \<noteq> None"
    using assms by (simp add: set_array_sort)
  ultimately show ?thesis
    using eq [OF assms] eq [of "array_sort (compareFn getTime) xs"]
    by (simp add: array_sort_sort_key [OF assms])
qed

lemma array_sort_id_if_sorted:
  assumes "\<forall>p\<in>set xs. getTime (date p) \<noteq> None"
    and "sorted_wrt (\<lambda>a b. the (getTime (date b)) \<le> the (getTime (date a))) xs"
  shows "array_sort (compareFn getTime) xs = xs"
proof -
  have "sorted (map (\<lambda>p. - the (getTime (date p))) xs)"
    using assms(2) by (simp add: sorted_map)
  then show ?thesis
    by (simp add: array_sort_sort_key [OF assms(1)] sort_key_id_if_sorted)
qed

text \<open>\<open>slice(0, n)\<close>: the first \<open>n\<close> elements, or all but the last \<open>-n\<close>.\<close>

lemma slice_0: "slice 0 n xs = (if 0 \<le> n then take (nat n) xs else take (length xs - nat (- n)) xs)"
proof (cases "0 \<le> n")
  case True
  then show ?thesis
    by (cases "n \<le> int (length xs)") (simp_all add: slice_def min_def)
next
  case False
  then have "nat (max (int (length xs) + n) 0) = length xs - nat (- n)" by linarith
  with False show ?thesis by (simp add: slice_def)
qed

text \<open>
  Claim C2, as the code has it. For a collection whose dates all parse (the invariant of
  a Post), \<open>getNewPosts\<close> sorts before it slices: there is one arrangement of the
  collection, with the same posts, in descending order of date and with posts of equal
  date in their original order, of which \<open>getNewPosts num\<close> returns the first \<open>num\<close>
  posts when \<open>num\<close> is not negative, and all but the last \<open>-num\<close> posts when it is.
\<close>

theorem getNewPosts_newest:
  assumes "\<forall>p\<in>set POSTS. getTime (date p) \<noteq> None"
  shows "\<exists>sorted_posts.
           mset sorted_posts = mset POSTS \<and>
           sorted_wrt (\<lambda>a b. the (getTime (date b)) \<le> the (getTime (date a))) sorted_posts \<and>
           (\<forall>t. filter (\<lambda>p. getTime (date p) = Some t) sorted_posts =
                filter (\<lambda>p. getTime (date p) = Some t) POSTS) \<and>
           fst (getNewPosts getTime num POSTS) =
             (if 0 \<le> num then take (nat num) sorted_posts
              else take (length sorted_posts - nat (- num)) sorted_posts)"
proof -
  let ?S = "array_sort (compareFn getTime) POSTS"
  have "fst (getNewPosts getTime num POSTS) =
      (if 0 \<le> num then take (nat num) ?S else take (length ?S - nat (- num)) ?S)"
    by (simp add: getNewPosts_def Let_def slice_0)
  moreover have "mset ?S = mset POSTS" by (rule mset_array_sort)
  moreover note sorted_desc_array_sort [OF assms]
  moreover have "\<forall>t. filter (\<lambda>p. getTime (date p) = Some t) ?S =
      filter (\<lambda>p. getTime (date p) = Some t) POSTS"
    using stable_array_sort [OF assms] by blast
  ultimately show ?thesis by blast
qed

text \<open>The newest of the two example posts.\<close>

lemma example_dates_valid: "\<forall>p\<in>set [post_07, post_08]. example_getTime (date p) \<noteq> None"
  by (simp add: post_07_def post_08_def example_getTime_def)

theorem getNewPosts_newest_witness:
  "example_getTime (date post_07) \<noteq> None \<and> example_getTime (date post_08) \<noteq> None \<and>
   fst (getNewPosts example_getTime 1 [post_07, post_08]) = [post_08] \<and>
   (\<exists>sorted_posts. mset sorted_posts = mset [post_07, post_08] \<and>
      fst (getNewPosts example_getTime 1 [post_07, post_08]) = take 1 sorted_posts)"
proof -
  from getNewPosts_newest [OF example_dates_valid, of 1]
  have "\<exists>sorted_posts. mset sorted_posts = mset [post_07, post_08] \<and>
      fst (getNewPosts example_getTime 1 [post_07, post_08]) = take 1 sorted_posts"
    by auto
  moreover have "fst (getNewPosts example_getTime 1 [post_07, post_08]) = [post_08]"
    by (simp add: getNewPosts_def compareFn_def SortCompare_def example_getTime_def
        post_07_def post_08_def slice_def)
  ultimately show ?thesis using example_dates_valid by simp
qed

text \<open>
  Claim C2 as written, for every number, fails at \<open>num = -1\<close>: the call returns the
  newer of the two posts, where the first \<open>-1\<close> posts of the sorted collection are
  none.
\<close>

theorem getNewPosts_negative_counterexample:
  "fst (getNewPosts example_getTime (- 1) [post_07, post_08]) = [post_08] \<and>
   snd (getNewPosts example_getTime (- 1) [post_07, post_08]) = [post_08, post_07] \<and>
   take (nat (- 1)) [post_08, post_07] = [] \<and>
   [post_08] \<noteq> ([] :: post list)"
  by (simp add: getNewPosts_def compareFn_def SortCompare_def example_getTime_def
      post_07_def post_08_def slice_def)

text \<open>
  Claim C3, as the code has it. \<open>getNewPosts\<close> sorts the shared array in place. The
  array holds the same posts afterwards, each as often as before. When every date
  parses it is left in descending order of date, posts of equal date in their original
  order; it is left as it was exactly when it was in descending order already; and a
  further call, with any \<open>num\<close>, changes nothing more.
\<close>

theorem getNewPosts_reorders_global:
  "mset (snd (getNewPosts getTime num POSTS)) = mset POSTS \<and>
   ((\<forall>p\<in>set POSTS. getTime (date p) \<noteq> None) \<longrightarrow>
      sorted_wrt (\<lambda>a b. the (getTime (date b)) \<le> the (getTime (date a)))
        (snd (getNewPosts getTime num POSTS)) \<and>
      (\<forall>t. filter (\<lambda>p. getTime (date p) = Some t) (snd (getNewPosts getTime num POSTS)) =
           filter (\<lambda>p. getTime (date p) = Some t) POSTS) \<and>
      (snd (getNewPosts getTime num POSTS) = POSTS \<longleftrightarrow>
         sorted_wrt (\<lambda>a b. the (getTime (date b)) \<le> the (getTime (date a))) POSTS) \<and>
      snd (getNewPosts getTime num' (snd (getNewPosts getTime num POSTS))) =
        snd (getNewPosts getTime num POSTS))"
proof -
  let ?S = "array_sort (compareFn getTime) POSTS"
  have s: "snd (getNewPosts getTime num POSTS) = array_sort (compareFn getTime) POSTS"
    for num POSTS
    by (simp add: getNewPosts_def Let_def)
  have m: "mset ?S = mset POSTS" by (rule mset_array_sort)
  {
    assume v: "\<forall>p\<in>set POSTS. getTime (date p) \<noteq> None"
    then have v': "\<forall>p\<in>set ?S. getTime (date p) \<noteq> None" by (simp add: set_array_sort)
    note srt = sorted_desc_array_sort [OF v]
    have stab: "\<forall>t. filter (\<lambda>p. getTime (date p) = Some t) ?S =
        filter (\<lambda>p. getTime (date p) = Some t) POSTS"
      using stable_array_sort [OF v] by blast
    have iff: "?S = POSTS \<longleftrightarrow>
        sorted_wrt (\<lambda>a b. the (getTime (date b)) \<le> the (getTime (date a))) POSTS"
      using srt array_sort_id_if_sorted [OF v] by auto
    have idem: "array_sort (compareFn getTime) ?S = ?S"
      by (rule array_sort_id_if_sorted [OF v' srt])
    note srt stab iff idem
  }
  with m show ?thesis by (simp add: s)
qed

text \<open>The two example posts, oldest first, are reordered once.\<close>

theorem getNewPosts_reorders_global_witness:
  "example_getTime (date post_07) \<noteq> None \<and> example_getTime (date post_08) \<noteq> None \<and>
   snd (getNewPosts example_getTime 1 [post_07, post_08]) = [post_08, post_07] \<and>
   snd (getNewPosts example_getTime 5 [post_08, post_07]) = [post_08, post_07] \<and>
   mset [post_08, post_07] = mset [post_07, post_08]"
proof -
  have r: "snd (getNewPosts example_getTime 1 [post_07, post_08]) = [post_08, post_07]"
    by (simp add: getNewPosts_def Let_def compareFn_def SortCompare_def example_getTime_def
        post_07_def post_08_def)
  from getNewPosts_reorders_global [of example_getTime 1 "[post_07, post_08]" 5]
    example_dates_valid
  have "mset (snd (getNewPosts example_getTime 1 [post_07, post_08])) = mset [post_07, post_08]"
    and "snd (getNewPosts example_getTime 5 (snd (getNewPosts example_getTime 1 [post_07, post_08]))) =
        snd (getNewPosts example_getTime 1 [post_07, post_08])"
    by blast+
  with r example_dates_valid show ?thesis by simp
qed

text \<open>
  Claim C3 as written fails on the two example posts listed oldest first: after
  \<open>getNewPosts 1\<close> the shared array holds them newest first.
\<close>

theorem getNewPosts_mutates_counterexample:
  "snd (getNewPosts example_getTime 1 [post_07, post_08]) = [post_08, post_07] \<and>
   [post_08, post_07] \<noteq> [post_07, post_08]"
  by (simp add: getNewPosts_def Let_def compareFn_def SortCompare_def example_getTime_def
      post_07_def post_08_def)

subsection \<open>Tags and their pages\<close>

text \<open>Different tags give different entries.\<close>

lemma inj_path_entry: "inj_on (\<lambda>tag. \<lparr>params = [(''tag'', tag)]\<rparr>) A"
  by (rule inj_onI) simp

text \<open>
  Claim C10. For every global tags array, \<open>paths\<close> returns a list of the same length
  whose \<open>i\<close>-th entry has the \<open>i\<close>-th tag, and only it, as its parameter \<open>tag\<close>, in
  the same order. It removes no duplicate: its entries are distinct exactly when the
  tags are.
\<close>

theorem paths_pointwise:
  "length (paths tags_global) = length tags_global \<and>
   (\<forall>i<length tags_global. params (paths tags_global ! i) = [(''tag'', tags_global ! i)]) \<and>
   (distinct (paths tags_global) \<longleftrightarrow> distinct tags_global)"
  by (simp add: paths_def distinct_map inj_path_entry)

text \<open>A tags array with a repeated tag keeps the repetition.\<close>

theorem paths_pointwise_witness:
  "1 < length [''ts'', ''go'', ''ts''] \<and>
   params (paths [''ts'', ''go'', ''ts''] ! 1) = [(''tag'', ''go'')] \<and>
   paths [''ts'', ''go'', ''ts''] =
     [\<lparr>params = [(''tag'', ''ts'')]\<rparr>, \<lparr>params = [(''tag'', ''go'')]\<rparr>,
      \<lparr>params = [(''tag'', ''ts'')]\<rparr>] \<and>
   \<not> distinct (paths [''ts'', ''go'', ''ts''])"
proof -
  have "\<not> distinct [''ts'', ''go'', ''ts'']" by simp
  with paths_pointwise [of "[''ts'', ''go'', ''ts'']"]
  have "\<forall>i<length [''ts'', ''go'', ''ts'']. params (paths [''ts'', ''go'', ''ts''] ! i) =
      [(''tag'', [''ts'', ''go'', ''ts''] ! i)]" and "\<not> distinct (paths [''ts'', ''go'', ''ts''])"
    by blast+
  moreover have l: "1 < length [''ts'', ''go'', ''ts'']" by simp
  ultimately have "params (paths [''ts'', ''go'', ''ts''] ! 1) = [(''tag'', [''ts'', ''go'', ''ts''] ! 1)]"
    and "\<not> distinct (paths [''ts'', ''go'', ''ts''])"
    by blast+
  then have "params (paths [''ts'', ''go'', ''ts''] ! 1) = [(''tag'', ''go'')]"
    and "\<not> distinct (paths [''ts'', ''go'', ''ts''])"
    by simp_all
  moreover note l
  moreover have "paths [''ts'', ''go'', ''ts''] =
     [\<lparr>params = [(''tag'', ''ts'')]\<rparr>, \<lparr>params = [(''tag'', ''go'')]\<rparr>,
      \<lparr>params = [(''tag'', ''ts'')]\<rparr>]"
    by (simp add: paths_def)
  ultimately show ?thesis by blast
qed

text \<open>The Tag Extractor: sorted, without duplicates, and exactly the tags in use.\<close>

lemma sorted_tagsAction: "sorted (tagsAction posts)"
  by (simp add: tagsAction_def)

lemma distinct_tagsAction: "distinct (tagsAction posts)"
  by (simp add: tagsAction_def)

lemma set_tagsAction: "set (tagsAction posts) = (\<Union>p\<in>set posts. set (tags p))"
  by (simp add: tagsAction_def)

text \<open>
  Claim C5. For every Post collection the Tag Extractor returns the tags used by any
  post, sorted and without duplicates. A post with no tags contributes nothing, the empty
  collection yields the empty tag set, and the posts tagged \<open>go, rust\<close> and \<open>rust\<close>
  yield \<open>go, rust\<close>.
\<close>

theorem tagsAction_sorted_set:
  "sorted (tagsAction posts) \<and> distinct (tagsAction posts) \<and>
   set (tagsAction posts) = (\<Union>p\<in>set posts. set (tags p)) \<and>
   tagsAction (p\<lparr>tags := []\<rparr> # posts) = tagsAction posts \<and>
   tagsAction [] = [] \<and>
   tagsAction [post_go_rust, post_rust] = [''go'', ''rust'']"
proof -
  have "tagsAction (p\<lparr>tags := []\<rparr> # posts) = tagsAction posts"
    by (simp add: tagsAction_def)
  moreover have "tagsAction [] = []"
    by (simp add: tagsAction_def)
  moreover have "tagsAction [post_go_rust, post_rust] = [''go'', ''rust'']"
    by (simp add: tagsAction_def post_go_rust_def post_rust_def post_07_def post_08_def)
  ultimately show ?thesis
    using sorted_tagsAction distinct_tagsAction set_tagsAction by blast
qed

text \<open>
  Claim C6. On the tag set of the Tag Extractor, \<open>paths\<close> returns the entries of the
  tags in the order of the tag set, no entry twice, as many entries as there are
  distinct tags, exactly one entry for each tag in use, and each entry has the one
  parameter \<open>tag\<close>: there is no page parameter and no second entry for a tag.
\<close>

theorem paths_one_entry_per_tag:
  "map params (paths (tagsAction posts)) = map (\<lambda>tag. [(''tag'', tag)]) (tagsAction posts) \<and>
   distinct (paths (tagsAction posts)) \<and>
   length (paths (tagsAction posts)) = card (\<Union>p\<in>set posts. set (tags p)) \<and>
   (\<forall>tag\<in>(\<Union>p\<in>set posts. set (tags p)).
      length (filter (\<lambda>e. map_of (params e) ''tag'' = Some tag) (paths (tagsAction posts))) = 1) \<and>
   (\<forall>e\<in>set (paths (tagsAction posts)). map fst (params e) = [''tag''])"
proof -
  let ?ts = "tagsAction posts"
  have d: "distinct ?ts" by (rule distinct_tagsAction)
  have 1: "map params (paths ?ts) = map (\<lambda>tag. [(''tag'', tag)]) ?ts"
    by (simp add: paths_def)
  have 2: "distinct (paths ?ts)"
    using d by (simp add: paths_def distinct_map inj_path_entry)
  have 3: "length (paths ?ts) = card (\<Union>p\<in>set posts. set (tags p))"
    using distinct_card [OF d] by (simp add: paths_def set_tagsAction)
  have 4: "length (filter (\<lambda>e. map_of (params e) ''tag'' = Some tag) (paths ?ts)) = 1"
    if "tag \<in> (\<Union>p\<in>set posts. set (tags p))" for tag
  proof -
    from that have "tag \<in> set ?ts" by (simp add: set_tagsAction)
    have "filter (\<lambda>e. map_of (params e) ''tag'' = Some tag) (paths ?ts) =
        map (\<lambda>tag. \<lparr>params = [(''tag'', tag)]\<rparr>) (filter (\<lambda>t. t = tag) ?ts)"
      by (simp add: paths_def filter_map comp_def)
    moreover have "length (filter (\<lambda>t. t = tag) ?ts) = 1"
      using d \<open>tag \<in> set ?ts\<close> by (simp add: distinct_length_filter)
    ultimately show ?thesis by simp
  qed
  have 5: "\<forall>e\<in>set (paths ?ts). map fst (params e) = [''tag'']"
    by (auto simp: paths_def)
  from 1 2 3 4 5 show ?thesis by blast
qed

text \<open>The tag pages of the two example posts.\<close>

theorem paths_one_entry_per_tag_witness:
  "paths (tagsAction [post_07, post_08]) =
     [\<lparr>params = [(''tag'', ''generics'')]\<rparr>, \<lparr>params = [(''tag'', ''ts'')]\<rparr>] \<and>
   ''ts'' \<in> (\<Union>p\<in>set [post_07, post_08]. set (tags p)) \<and>
   length (filter (\<lambda>e. map_of (params e) ''tag'' = Some ''ts'')
     (paths (tagsAction [post_07, post_08]))) = 1 \<and>
   map (\<lambda>e. map fst (params e)) (paths (tagsAction [post_07, post_08])) = [[''tag''], [''tag'']]"
proof -
  have m: "''ts'' \<in> (\<Union>p\<in>set [post_07, post_08]. set (tags p))"
    by (simp add: post_07_def)
  have v: "paths (tagsAction [post_07, post_08]) =
     [\<lparr>params = [(''tag'', ''generics'')]\<rparr>, \<lparr>params = [(''tag'', ''ts'')]\<rparr>]"
    by (simp add: paths_def tagsAction_def post_07_def post_08_def)
  from paths_one_entry_per_tag [of "[post_07, post_08]"] m
  have "length (filter (\<lambda>e. map_of (params e) ''tag'' = Some ''ts'')
     (paths (tagsAction [post_07, post_08]))) = 1"
    and "\<forall>e\<in>set (paths (tagsAction [post_07, post_08])). map fst (params e) = [''tag'']"
    by blast+
  with m v show ?thesis by simp
qed

subsection \<open>The pagination plan\<close>

text \<open>The integer computation of the number of pages is the ceiling of the quotient.\<close>

lemma ceiling_div_nat:
  assumes "0 < s"
  shows "nat \<lceil>real c / real s\<rceil> = (c + s - 1) div s"
proof -
  have "\<lceil>real c / real s\<rceil> = int ((c + s - 1) div s)"
  proof (rule ceiling_unique)
    have s: "0 < real s" using assms by simp
    have "c + s - 1 = ((c + s - 1) div s) * s + (c + s - 1) mod s" by simp
    moreover have "(c + s - 1) mod s < s" using assms by simp
    ultimately have a: "c \<le> ((c + s - 1) div s) * s" and b: "((c + s - 1) div s) * s < c + s"
      using assms by linarith+
    from a have "real c \<le> real ((c + s - 1) div s) * real s"
      by (metis of_nat_le_iff of_nat_mult)
    then show "real c / real s \<le> of_int (int ((c + s - 1) div s))"
      using s by (simp add: pos_divide_le_eq)
    from b have "real ((c + s - 1) div s) * real s < real c + real s"
      by (metis of_nat_less_iff of_nat_mult of_nat_add)
    then have "(real ((c + s - 1) div s) - 1) * real s < real c"
      by (simp add: algebra_simps)
    then show "of_int (int ((c + s - 1) div s)) - 1 < real c / real s"
      using s by (simp add: pos_less_divide_eq)
  qed
  then show ?thesis by simp
qed

text \<open>
  Claim C4. For every post count and every page size greater than 0 the plan is the
  sequence of the page numbers from 1 to the ceiling of count by page size, and the one
  page 1 for no posts; for 25 posts at 10 a page it is 1, 2, 3.
\<close>

theorem pagination_plan_pages:
  assumes "0 < pageSize"
  shows "pagination_plan postCount pageSize =
           (if postCount = 0 then [1] else [1 ..< Suc (nat \<lceil>real postCount / real pageSize\<rceil>)]) \<and>
         pagination_plan 25 10 = [1, 2, 3]"
proof -
  have e: "pagination_plan 25 10 = [1, 2, 3]"
    by (simp add: pagination_plan_def page_count_def upt_rec)
  show ?thesis
  proof (cases "postCount = 0")
    case True
    with assms e show ?thesis
      by (simp add: pagination_plan_def page_count_def)
  next
    case False
    with assms have "1 \<le> (postCount + pageSize - 1) div pageSize"
      by (simp add: Suc_le_eq div_greater_zero_iff)
    with False e show ?thesis
      by (simp add: pagination_plan_def page_count_def ceiling_div_nat [OF assms] max_def)
  qed
qed

text \<open>The plan at page size 10, for no posts and for 25 posts.\<close>

theorem pagination_plan_pages_witness:
  "(0::nat) < 10 \<and> pagination_plan 25 10 = [1, 2, 3] \<and> pagination_plan 0 10 = [1]"
proof -
  have h: "(0::nat) < 10" by simp
  from pagination_plan_pages [OF h, of 0] show ?thesis by simp
qed

subsection \<open>The Post Model Builder\<close>

text \<open>A trimmed string neither starts nor ends with whitespace.\<close>

lemma trim_no_surrounding_whitespace:
  "trim s \<noteq> [] \<longrightarrow> \<not> is_whitespace (hd (trim s)) \<and> \<not> is_whitespace (last (trim s))"
proof
  let ?d = "dropWhile is_whitespace s"
  let ?r = "dropWhile is_whitespace (rev ?d)"
  assume ne: "trim s \<noteq> []"
  then have r: "?r \<noteq> []" by (metis trim_def rev_is_Nil_conv)
  have d: "?d \<noteq> []"
  proof
    assume "?d = []"
    then have "?r = []" by (metis rev.simps(1) dropWhile.simps(1))
    with r show False by blast
  qed
  from r have "\<not> is_whitespace (hd ?r)" by (rule hd_dropWhile)
  then have l: "\<not> is_whitespace (last (trim s))"
    using r by (metis trim_def last_rev)
  from d have hd: "\<not> is_whitespace (hd ?d)" by (rule hd_dropWhile)
  obtain ws where ws: "rev ?d = ws @ ?r"
    by (metis takeWhile_dropWhile_id)
  then have "?d = rev ?r @ rev ws" by (metis rev_append rev_rev_ident)
  then have "hd ?d = hd (rev ?r)" using r by (metis hd_append2 rev_is_Nil_conv)
  with hd have "\<not> is_whitespace (hd (trim s))" by (metis trim_def)
  with l show "\<not> is_whitespace (hd (trim s)) \<and> \<not> is_whitespace (last (trim s))" by blast
qed

text \<open>
  A string is its trimmed form between two runs of whitespace. Together with the lemma
  above this fixes the trimmed form: it is what is left of the string when the
  whitespace on both sides has gone.
\<close>

lemma trim_surrounded_by_whitespace:
  "\<exists>a b. s = a @ trim s @ b \<and> (\<forall>c\<in>set a. is_whitespace c) \<and> (\<forall>c\<in>set b. is_whitespace c)"
proof -
  let ?d = "dropWhile is_whitespace s"
  let ?a = "takeWhile is_whitespace s"
  let ?b = "rev (takeWhile is_whitespace (rev ?d))"
  have "rev ?d = takeWhile is_whitespace (rev ?d) @ dropWhile is_whitespace (rev ?d)"
    by (metis takeWhile_dropWhile_id)
  then have "rev (rev ?d) = rev (takeWhile is_whitespace (rev ?d) @ dropWhile is_whitespace (rev ?d))"
    by (rule arg_cong)
  then have d: "?d = trim s @ ?b"
    by (simp only: rev_rev_ident rev_append trim_def)
  have "s = ?a @ ?d" by (metis takeWhile_dropWhile_id)
  with d have "s = ?a @ trim s @ ?b" by metis
  moreover have "\<forall>c\<in>set ?a. is_whitespace c"
    by (blast dest: set_takeWhileD)
  moreover have "\<forall>c\<in>set ?b. is_whitespace c"
    unfolding set_rev by (blast dest: set_takeWhileD)
  ultimately show ?thesis by blast
qed

text \<open>
  Claim C7, as the model has it. For a front matter with a date and a title, the Post
  Model Builder fails with \<open>InvalidDateFormat\<close> when the date does not parse, and
  otherwise produces a Post whose tags have no duplicates and are the empty collection
  when the front matter has no tags. When it has tags, every one of them is a tag of the
  Post between two runs of whitespace, and every tag of the Post neither starts nor ends
  with whitespace and is a tag of the front matter without the whitespace on its two
  sides: the tags of the Post are the tags of the front matter, trimmed.
\<close>

theorem buildPost_tags:
  assumes "fm_date fm = Some d" and "fm_title fm = Some t"
  shows "(getTime d = None \<longrightarrow> buildPost getTime fm file = Inl (InvalidDateFormat file)) \<and>
         (getTime d \<noteq> None \<longrightarrow>
            (\<exists>p. buildPost getTime fm file = Inr p \<and>
               distinct (tags p) \<and>
               (fm_tags fm = None \<longrightarrow> tags p = []) \<and>
               (\<forall>ts. fm_tags fm = Some ts \<longrightarrow>
                  (\<forall>s\<in>set ts. \<exists>a tag b. s = a @ tag @ b \<and> tag \<in> set (tags p) \<and>
                     (\<forall>c\<in>set a. is_whitespace c) \<and> (\<forall>c\<in>set b. is_whitespace c)) \<and>
                  (\<forall>tag\<in>set (tags p).
                     (tag \<noteq> [] \<longrightarrow> \<not> is_whitespace (hd tag) \<and> \<not> is_whitespace (last tag)) \<and>
                     (\<exists>s\<in>set ts. \<exists>a b. s = a @ tag @ b \<and>
                        (\<forall>c\<in>set a. is_whitespace c) \<and> (\<forall>c\<in>set b. is_whitespace c))))))"
proof (intro conjI impI)
  assume "getTime d = None"
  with assms show "buildPost getTime fm file = Inl (InvalidDateFormat file)"
    by (simp add: buildPost_def)
next
  assume v: "getTime d \<noteq> None"
  let ?tags = "case fm_tags fm of None \<Rightarrow> [] | Some ts \<Rightarrow> remdups (map trim ts)"
  let ?p = "\<lparr>path = file, date = d, title = t,
     description = (case fm_description fm of None \<Rightarrow> [] | Some x \<Rightarrow> x),
     tags = ?tags, prev_nav = fm_prev fm, next_nav = fm_next fm\<rparr>"
  have b: "buildPost getTime fm file = Inr ?p"
    using assms v by (simp add: buildPost_def)
  have t: "tags ?p = ?tags" by simp
  have 1: "distinct ?tags" by (simp split: option.split)
  have 2: "fm_tags fm = None \<longrightarrow> ?tags = []" by simp
  have 3: "\<exists>a tag b. s = a @ tag @ b \<and> tag \<in> set ?tags \<and>
      (\<forall>c\<in>set a. is_whitespace c) \<and> (\<forall>c\<in>set b. is_whitespace c)"
    if "fm_tags fm = Some ts" and "s \<in> set ts" for ts s
  proof -
    from that have "trim s \<in> set ?tags" by simp
    with trim_surrounded_by_whitespace [of s] show ?thesis by blast
  qed
  have 4: "(tag \<noteq> [] \<longrightarrow> \<not> is_whitespace (hd tag) \<and> \<not> is_whitespace (last tag)) \<and>
      (\<exists>s\<in>set ts. \<exists>a b. s = a @ tag @ b \<and>
         (\<forall>c\<in>set a. is_whitespace c) \<and> (\<forall>c\<in>set b. is_whitespace c))"
    if "fm_tags fm = Some ts" and "tag \<in> set ?tags" for ts tag
  proof -
    from that obtain s where s: "s \<in> set ts" "tag = trim s" by auto
    from trim_no_surrounding_whitespace [of s] s(2)
    have "tag \<noteq> [] \<longrightarrow> \<not> is_whitespace (hd tag) \<and> \<not> is_whitespace (last tag)" by simp
    moreover from trim_surrounded_by_whitespace [of s] s
    have "\<exists>s\<in>set ts. \<exists>a b. s = a @ tag @ b \<and>
         (\<forall>c\<in>set a. is_whitespace c) \<and> (\<forall>c\<in>set b. is_whitespace c)" by blast
    ultimately show ?thesis by blast
  qed
  show "\<exists>p. buildPost getTime fm file = Inr p \<and>
      distinct (tags p) \<and>
      (fm_tags fm = None \<longrightarrow> tags p = []) \<and>
      (\<forall>ts. fm_tags fm = Some ts \<longrightarrow>
         (\<forall>s\<in>set ts. \<exists>a tag b. s = a @ tag @ b \<and> tag \<in> set (tags p) \<and>
            (\<forall>c\<in>set a. is_whitespace c) \<and> (\<forall>c\<in>set b. is_whitespace c)) \<and>
         (\<forall>tag\<in>set (tags p).
            (tag \<noteq> [] \<longrightarrow> \<not> is_whitespace (hd tag) \<and> \<not> is_whitespace (last tag)) \<and>
            (\<exists>s\<in>set ts. \<exists>a b. s = a @ tag @ b \<and>
               (\<forall>c\<in>set a. is_whitespace c) \<and> (\<forall>c\<in>set b. is_whitespace c))))"
  proof (rule exI [of _ ?p], unfold t, intro conjI allI impI)
    show "buildPost getTime fm file = Inr ?p" by (rule b)
    show "distinct ?tags" by (rule 1)
    show "?tags = []" if "fm_tags fm = None" using that 2 by (rule rev_mp)
    show "\<forall>s\<in>set ts. \<exists>a tag b. s = a @ tag @ b \<and> tag \<in> set ?tags \<and>
        (\<forall>c\<in>set a. is_whitespace c) \<and> (\<forall>c\<in>set b. is_whitespace c)"
      if "fm_tags fm = Some ts" for ts
      using 3 [OF that] by (rule ballI)
    show "\<forall>tag\<in>set ?tags.
        (tag \<noteq> [] \<longrightarrow> \<not> is_whitespace (hd tag) \<and> \<not> is_whitespace (last tag)) \<and>
        (\<exists>s\<in>set ts. \<exists>a b. s = a @ tag @ b \<and>
           (\<forall>c\<in>set a. is_whitespace c) \<and> (\<forall>c\<in>set b. is_whitespace c))"
      if "fm_tags fm = Some ts" for ts
      using 4 [OF that] by (rule ballI)
  qed
qed

text \<open>The tags \<open>ts\<close> and \<open>ts\<close> between two spaces collapse to the one tag \<open>ts\<close>.\<close>

theorem buildPost_tags_witness:
  "fm_date example_front_matter = Some ''2025-07-07'' \<and>
   fm_title example_front_matter = Some ''A'' \<and>
   example_getTime ''2025-07-07'' \<noteq> None \<and>
   fm_tags example_front_matter = Some [''ts'', '' ts ''] \<and>
   (\<exists>p. buildPost example_getTime example_front_matter ''posts/2025/07/07.md'' = Inr p \<and>
      tags p = [''ts''] \<and> distinct (tags p)) \<and>
   '' ts '' = '' '' @ ''ts'' @ '' '' \<and> is_whitespace CHR '' '' \<and>
   \<not> is_whitespace (hd ''ts'') \<and> \<not> is_whitespace (last ''ts'')"
proof -
  have h: "fm_date example_front_matter = Some ''2025-07-07''"
    "fm_title example_front_matter = Some ''A''" "example_getTime ''2025-07-07'' \<noteq> None"
    "fm_tags example_front_matter = Some [''ts'', '' ts '']"
    by (simp_all add: example_front_matter_def example_getTime_def)
  note built = buildPost_tags [of example_front_matter "''2025-07-07''" "''A''"
      example_getTime "''posts/2025/07/07.md''", OF h(1) h(2), THEN conjunct2, THEN mp, OF h(3)]
  from built obtain p where
    p: "buildPost example_getTime example_front_matter ''posts/2025/07/07.md'' = Inr p"
      "distinct (tags p)"
    by (elim exE conjE) (rule that)
  have "buildPost example_getTime example_front_matter ''posts/2025/07/07.md'' =
      Inr (post_07\<lparr>prev_nav := Some Disabled\<rparr>)"
    by (simp add: buildPost_def example_front_matter_def example_getTime_def trim_def
        is_whitespace_def post_07_def)
  with p(1) have "p = post_07\<lparr>prev_nav := Some Disabled\<rparr>" by simp
  then have "tags p = [''ts'']" by (simp add: post_07_def)
  moreover have "'' ts '' = '' '' @ ''ts'' @ '' '' \<and> is_whitespace CHR '' '' \<and>
      \<not> is_whitespace (hd ''ts'') \<and> \<not> is_whitespace (last ''ts'')"
    by (simp add: is_whitespace_def)
  ultimately show ?thesis using p h by (intro conjI exI [of _ p]) simp_all
qed

text \<open>
  Claim C7 as written, for every front matter with a date and a title, fails when the
  date is present and does not parse: no Post is produced.
\<close>

theorem buildPost_invalid_date_counterexample:
  "fm_date (example_front_matter\<lparr>fm_date := Some ''not-a-date''\<rparr>) = Some ''not-a-date'' \<and>
   fm_title (example_front_matter\<lparr>fm_date := Some ''not-a-date''\<rparr>) = Some ''A'' \<and>
   buildPost example_getTime (example_front_matter\<lparr>fm_date := Some ''not-a-date''\<rparr>)
     ''posts/2025/07/07.md'' = Inl (InvalidDateFormat ''posts/2025/07/07.md'')"
  by (simp add: buildPost_def example_front_matter_def example_getTime_def)

text \<open>
  Claim C8. For every front matter without a date or without a title the Post Model
  Builder fails with \<open>MissingRequiredField\<close>, which names a missing field (the date
  when the date is missing, the title otherwise) and the path of the file.
\<close>

theorem buildPost_missing_required:
  assumes "fm_date fm = None \<or> fm_title fm = None"
  shows "buildPost getTime fm file =
           Inl (MissingRequiredField (if fm_date fm = None then ''date'' else ''title'') file)"
  using assms by (auto simp: buildPost_def split: option.splits)

text \<open>The example front matter without its date, and without its title.\<close>

theorem buildPost_missing_required_witness:
  "(fm_date (example_front_matter\<lparr>fm_date := None\<rparr>) = None \<or>
    fm_title (example_front_matter\<lparr>fm_date := None\<rparr>) = None) \<and>
   buildPost example_getTime (example_front_matter\<lparr>fm_date := None\<rparr>) ''posts/2025/07/07.md'' =
     Inl (MissingRequiredField ''date'' ''posts/2025/07/07.md'') \<and>
   buildPost example_getTime (example_front_matter\<lparr>fm_title := None\<rparr>) ''posts/2025/07/07.md'' =
     Inl (MissingRequiredField ''title'' ''posts/2025/07/07.md'')"
proof -
  have h1: "fm_date (example_front_matter\<lparr>fm_date := None\<rparr>) = None \<or>
    fm_title (example_front_matter\<lparr>fm_date := None\<rparr>) = None" by simp
  have h2: "fm_date (example_front_matter\<lparr>fm_title := None\<rparr>) = None \<or>
    fm_title (example_front_matter\<lparr>fm_title := None\<rparr>) = None" by simp
  have d: "fm_date (example_front_matter\<lparr>fm_title := None\<rparr>) \<noteq> None"
    by (simp add: example_front_matter_def)
  from buildPost_missing_required [OF h1, of example_getTime "''posts/2025/07/07.md''"]
    buildPost_missing_required [OF h2, of example_getTime "''posts/2025/07/07.md''"] d h1
  show ?thesis by simp
qed

end
